theory Spec2Isabelle
  imports Main "HOL-Library.AList"
begin

section \<open>Domain model (internal/model)\<close>

text \<open>
  UUIDs are opaque identifiers and instants are readings of the wall clock; both are
  modelled as natural numbers. The string-valued Go types \<open>AssetStatus\<close> and
  \<open>ChangeAction\<close> stay strings, as the code compares and concatenates them as such.
  \<open>json.RawMessage\<close> is a byte string.
\<close>

type_synonym uuid = nat
type_synonym time = nat
type_synonym error = string

definition AssetStatusActive :: string where "AssetStatusActive = ''active''"
definition AssetStatusStale :: string where "AssetStatusStale = ''stale''"
definition AssetStatusRemoved :: string where "AssetStatusRemoved = ''removed''"

record Asset =
  ID :: uuid
  ExternalID :: string
  Source :: string
  AssetType :: string
  Name :: string
  FQDN :: "string option"
  IPAddresses :: "string list"
  Attributes :: string
  FirstSeen :: time
  LastSeen :: time
  Status :: string
  CreatedAt :: time
  UpdatedAt :: time

definition ChangeActionCreated :: string where "ChangeActionCreated = ''asset.created''"
definition ChangeActionUpdated :: string where "ChangeActionUpdated = ''asset.updated''"
definition ChangeActionRemoved :: string where "ChangeActionRemoved = ''asset.removed''"
definition ChangeActionRelChanged :: string where
  "ChangeActionRelChanged = ''relationship.changed''"

text \<open>
  One entry of the diff map: the Go value \<open>map[string]string{"old": o, "new": n}\<close>.
  The diff itself is a Go \<open>map[string]any\<close>; it is modelled as an association list
  holding the entries in the order \<open>detectChanges\<close> inserts them (its keys are
  pairwise distinct).
\<close>

record FieldChange =
  old_value :: string
  new_value :: string

type_synonym diff = "(string \<times> FieldChange) list"

text \<open>
  The result of \<open>json.Marshal\<close> on a diff map: a nil map is marshalled to the JSON
  literal \<open>null\<close>, a non-nil map to a JSON object with one member per key.
\<close>

datatype diff_json = JNull | JObject diff

definition Marshal :: "diff option \<Rightarrow> diff_json" where
  "Marshal d = (case d of None \<Rightarrow> JNull | Some m \<Rightarrow> JObject m)"

record ChangeEvent =
  EventID :: uuid
  AssetID :: uuid
  Action :: string
  EventSource :: string
  Diff :: diff_json
  Timestamp :: time

text \<open>\<open>NewChangeEvent\<close>: the fresh UUID and the clock reading are supplied by the caller.\<close>

definition NewChangeEvent :: "uuid \<Rightarrow> time \<Rightarrow> uuid \<Rightarrow> string \<Rightarrow> string \<Rightarrow> diff_json \<Rightarrow> ChangeEvent" where
  "NewChangeEvent fresh_id ts assetID action source d =
     \<lparr>EventID = fresh_id, AssetID = assetID, Action = action, EventSource = source,
      Diff = d, Timestamp = ts\<rparr>"

section \<open>Change detection (internal/reconciler, detectChanges)\<close>

text \<open>
  \<open>existingFQDN\<close> and \<open>incomingFQDN\<close> start as the empty string and take the
  pointed-to string when the pointer is not nil. The attribute blobs are compared as
  \<open>string(existing.Attributes) != string(incoming.Attributes)\<close>, that is byte by byte.
\<close>

definition detectChanges :: "Asset \<Rightarrow> Asset \<Rightarrow> diff" where
  "detectChanges existing incoming =
     (let d0 = [];
          d1 = (if Name existing \<noteq> Name incoming
                then d0 @ [(''name'', \<lparr>old_value = Name existing, new_value = Name incoming\<rparr>)]
                else d0);
          existingFQDN = (case FQDN existing of None \<Rightarrow> [] | Some s \<Rightarrow> s);
          incomingFQDN = (case FQDN incoming of None \<Rightarrow> [] | Some s \<Rightarrow> s);
          d2 = (if existingFQDN \<noteq> incomingFQDN
                then d1 @ [(''fqdn'', \<lparr>old_value = existingFQDN, new_value = incomingFQDN\<rparr>)]
                else d1);
          d3 = (if Attributes existing \<noteq> Attributes incoming
                then d2 @ [(''attributes'',
                            \<lparr>old_value = Attributes existing, new_value = Attributes incoming\<rparr>)]
                else d2)
      in d3)"

section \<open>Relationships (internal/model)\<close>

record Relationship =
  RelID :: uuid
  FromID :: uuid
  ToID :: uuid
  RelType :: string
  RelSource :: string
  Properties :: string
  RelCreatedAt :: time
  RelUpdatedAt :: time

section \<open>The environment of one reconciliation step\<close>

text \<open>
  Everything the code reads from outside is an explicit input: the three clock readings
  (\<open>time.Now()\<close> in \<open>reconcileAsset\<close>, in \<open>Store.Update\<close> and in
  \<open>NewChangeEvent\<close>), the UUID drawn by \<open>NewChangeEvent\<close>, and which calls to
  PostgreSQL, Neo4j and the event bus fail for a reason the model does not compute
  (connection loss, timeout, scan error). A query that returns several rows can also
  break off while its rows are read: \<open>rows_read\<close> gives the number of rows delivered
  before that happens (\<open>None\<close> when all rows are delivered).
\<close>

datatype call =
    PgGetByExternalID string string
  | PgFindByIP string
  | PgFindByFQDN string
  | PgCount
  | PgList
  | PgCreate uuid
  | PgUpdate uuid
  | PgCreateChangeEvent uuid
  | NeoUpsertNode uuid
  | NeoUpsertRelationship uuid
  | BusPublish string

record env =
  now :: time
  update_now :: time
  event_now :: time
  event_uuid :: uuid
  fails :: "call \<Rightarrow> bool"
  rows_read :: "call \<Rightarrow> nat option"

section \<open>The stores, the bus and the log\<close>

datatype level = Info | Warn | Error

record Node =
  NodeName :: string
  NodeAssetType :: string
  NodeSource :: string
  NodeStatus :: string

record Edge =
  EdgeID :: uuid
  EdgeFrom :: uuid
  EdgeTo :: uuid
  EdgeType :: string
  EdgeSource :: string
  EdgeProperties :: string

text \<open>
  \<open>assets\<close> and \<open>change_events\<close> are the rows of the two PostgreSQL tables,
  \<open>nodes\<close> and \<open>edges\<close> the Neo4j graph, \<open>published\<close> the messages accepted by
  the event bus (subject and payload), \<open>logs\<close> the lines written to the logger.
\<close>

record world =
  assets :: "Asset list"
  change_events :: "ChangeEvent list"
  nodes :: "(uuid \<times> Node) list"
  edges :: "Edge list"
  published :: "(string \<times> ChangeEvent) list"
  logs :: "(level \<times> string) list"

definition logf :: "level \<Rightarrow> string \<Rightarrow> world \<Rightarrow> world" where
  "logf lvl msg w = w\<lparr>logs := logs w @ [(lvl, msg)]\<rparr>"

subsection \<open>PostgreSQL store (internal/store/postgres)\<close>

text \<open>
  \<open>QueryRow\<close> yields the first matching row; \<open>pgx.ErrNoRows\<close> is turned into
  \<open>(nil, nil)\<close> by \<open>scanAsset\<close>.
\<close>

definition GetByExternalID :: "env \<Rightarrow> world \<Rightarrow> string \<Rightarrow> string \<Rightarrow> error + Asset option" where
  "GetByExternalID e w source externalID =
     (if fails e (PgGetByExternalID source externalID) then Inl ''scanning asset''
      else Inr (find (\<lambda>a. Source a = source \<and> ExternalID a = externalID) (assets w)))"

text \<open>
  The loops \<open>for rows.Next() { ... }\<close> of \<open>FindByIP\<close>, \<open>FindByFQDN\<close> and
  \<open>List\<close> end when \<open>Next\<close> returns false and never consult \<open>rows.Err()\<close>: when
  the query breaks off in mid-stream, the rows read so far are returned with a nil error.
\<close>

definition rowsDelivered :: "env \<Rightarrow> call \<Rightarrow> 'a list \<Rightarrow> 'a list" where
  "rowsDelivered e c found = (case rows_read e c of None \<Rightarrow> found | Some k \<Rightarrow> take k found)"

definition FindByIP :: "env \<Rightarrow> world \<Rightarrow> string \<Rightarrow> error + Asset list" where
  "FindByIP e w ip =
     (if fails e (PgFindByIP ip) then Inl ''finding assets by IP''
      else Inr (rowsDelivered e (PgFindByIP ip)
                  (filter (\<lambda>a. ip \<in> set (IPAddresses a)) (assets w))))"

definition FindByFQDN :: "env \<Rightarrow> world \<Rightarrow> string \<Rightarrow> error + Asset list" where
  "FindByFQDN e w fqdn =
     (if fails e (PgFindByFQDN fqdn) then Inl ''finding assets by FQDN''
      else Inr (rowsDelivered e (PgFindByFQDN fqdn)
                  (filter (\<lambda>a. FQDN a = Some fqdn) (assets w))))"

text \<open>
  The constraints of the schema (migrations): \<open>id\<close> is the primary key of both tables,
  \<open>(source, external_id)\<close> is unique, \<open>status\<close> is the enum
  \<open>active | stale | removed\<close>, and \<open>change_events.asset_id\<close> references
  \<open>assets.id\<close>.
\<close>

definition valid_status :: "string \<Rightarrow> bool" where
  "valid_status s \<longleftrightarrow> s = AssetStatusActive \<or> s = AssetStatusStale \<or> s = AssetStatusRemoved"

text \<open>
  The \<open>attributes\<close> column is JSONB: PostgreSQL keeps the value, not the text, and
  may return a stored blob with other spacing or key order. The model returns the bytes
  as they were written, which is what PostgreSQL does for the blob \<open>{}\<close>.
\<close>

definition Create :: "env \<Rightarrow> Asset \<Rightarrow> world \<Rightarrow> error + world" where
  "Create e asset w =
     (if fails e (PgCreate (ID asset))
         \<or> list_ex (\<lambda>r. ID r = ID asset) (assets w)
         \<or> list_ex (\<lambda>r. Source r = Source asset \<and> ExternalID r = ExternalID asset) (assets w)
         \<or> \<not> valid_status (Status asset)
      then Inl ''inserting asset''
      else Inr (w\<lparr>assets := assets w @ [asset]\<rparr>))"

text \<open>
  \<open>Update\<close> first stamps \<open>asset.UpdatedAt\<close> with its own clock reading, whatever the
  caller had put there, then writes every column but \<open>first_seen\<close> and
  \<open>created_at\<close> into the row with the asset's id. The stamped asset is returned as
  well, since the caller's object is mutated.
\<close>

definition write_row :: "Asset \<Rightarrow> Asset \<Rightarrow> Asset" where
  "write_row asset r =
     r\<lparr>ExternalID := ExternalID asset, Source := Source asset, AssetType := AssetType asset,
       Name := Name asset, FQDN := FQDN asset, IPAddresses := IPAddresses asset,
       Attributes := Attributes asset, LastSeen := LastSeen asset, Status := Status asset,
       UpdatedAt := UpdatedAt asset\<rparr>"

definition Update :: "env \<Rightarrow> Asset \<Rightarrow> world \<Rightarrow> error option \<times> Asset \<times> world" where
  "Update e asset0 w =
     (let asset = asset0\<lparr>UpdatedAt := update_now e\<rparr> in
      if fails e (PgUpdate (ID asset))
         \<or> (list_ex (\<lambda>r. ID r = ID asset) (assets w)
             \<and> (list_ex (\<lambda>r. ID r \<noteq> ID asset \<and> Source r = Source asset
                               \<and> ExternalID r = ExternalID asset) (assets w)
                 \<or> \<not> valid_status (Status asset)))
      then (Some ''updating asset'', asset, w)
      else (None, asset,
            w\<lparr>assets := map (\<lambda>r. if ID r = ID asset then write_row asset r else r) (assets w)\<rparr>))"

definition CreateChangeEvent :: "env \<Rightarrow> ChangeEvent \<Rightarrow> world \<Rightarrow> error + world" where
  "CreateChangeEvent e event w =
     (if fails e (PgCreateChangeEvent (EventID event))
         \<or> list_ex (\<lambda>x. EventID x = EventID event) (change_events w)
         \<or> \<not> list_ex (\<lambda>r. ID r = AssetID event) (assets w)
      then Inl ''inserting change event''
      else Inr (w\<lparr>change_events := change_events w @ [event]\<rparr>))"

subsection \<open>Neo4j store (internal/store/neo4j), write side\<close>

text \<open>\<open>MERGE (a:Asset {id: $id}) SET ...\<close>: the node is created or its four properties are overwritten.\<close>

definition UpsertNode :: "env \<Rightarrow> Asset \<Rightarrow> world \<Rightarrow> error + world" where
  "UpsertNode e asset w =
     (if fails e (NeoUpsertNode (ID asset)) then Inl ''upserting neo4j node''
      else Inr (w\<lparr>nodes := AList.update (ID asset)
                   \<lparr>NodeName = Name asset, NodeAssetType = AssetType asset,
                    NodeSource = Source asset, NodeStatus = Status asset\<rparr> (nodes w)\<rparr>))"

text \<open>
  \<open>MATCH (from) MATCH (to) MERGE (from)-[r:T {id: $id}]->(to) SET ...\<close>: without both
  end nodes nothing is matched and nothing is written (and no error is raised); an edge
  with the same ends, type and id is overwritten, otherwise a new edge is created.
\<close>

definition same_edge :: "Relationship \<Rightarrow> Edge \<Rightarrow> bool" where
  "same_edge rel x \<longleftrightarrow> EdgeID x = RelID rel \<and> EdgeFrom x = FromID rel \<and> EdgeTo x = ToID rel
     \<and> EdgeType x = RelType rel"

definition UpsertRelationship :: "env \<Rightarrow> Relationship \<Rightarrow> world \<Rightarrow> error + world" where
  "UpsertRelationship e rel w =
     (if fails e (NeoUpsertRelationship (RelID rel)) then Inl ''upserting neo4j relationship''
      else if map_of (nodes w) (FromID rel) = None \<or> map_of (nodes w) (ToID rel) = None then Inr w
      else if list_ex (same_edge rel) (edges w)
      then Inr (w\<lparr>edges := map (\<lambda>x. if same_edge rel x
                                       then x\<lparr>EdgeSource := RelSource rel,
                                              EdgeProperties := Properties rel\<rparr>
                                       else x) (edges w)\<rparr>)
      else Inr (w\<lparr>edges := edges w @
                   [\<lparr>EdgeID = RelID rel, EdgeFrom = FromID rel, EdgeTo = ToID rel,
                     EdgeType = RelType rel, EdgeSource = RelSource rel,
                     EdgeProperties = Properties rel\<rparr>]\<rparr>))"

section \<open>The reconciler (internal/reconciler)\<close>

text \<open>
  The reconciler holds the two stores, the publisher and the logger. The stores and the
  log live in the \<open>world\<close>; what the model keeps of the struct is whether
  \<open>neoStore\<close> and \<open>publisher\<close> are non-nil.
\<close>

record Reconciler =
  neoStore :: bool
  publisher :: bool

definition New :: "bool \<Rightarrow> bool \<Rightarrow> Reconciler" where
  "New neo pub = \<lparr>neoStore = neo, publisher = pub\<rparr>"

subsection \<open>publishEvent\<close>

definition publishEvent :: "Reconciler \<Rightarrow> env \<Rightarrow> string \<Rightarrow> Asset \<Rightarrow> diff option \<Rightarrow> world \<Rightarrow> world" where
  "publishEvent r e action asset d w =
     (if \<not> publisher r then w
      else
        let diffJSON = Marshal d;
            event = NewChangeEvent (event_uuid e) (event_now e) (ID asset) action (Source asset) diffJSON;
            w1 = (case CreateChangeEvent e event w of
                    Inl err \<Rightarrow> logf Warn ''failed to store change event'' w
                  | Inr w' \<Rightarrow> w');
            subject = ''assets.'' @ action
        in if fails e (BusPublish subject) then logf Warn ''failed to publish event'' w1
           else w1\<lparr>published := published w1 @ [(subject, event)]\<rparr>)"

subsection \<open>reconcileAsset, identity resolution (steps 1 to 3)\<close>

text \<open>Step 2, the loop over \<open>incoming.IPAddresses\<close>.\<close>

fun matchByIP :: "env \<Rightarrow> string list \<Rightarrow> world \<Rightarrow> Asset option \<times> world" where
  "matchByIP e [] w = (None, w)"
| "matchByIP e (ip # ips) w =
     (case FindByIP e w ip of
        Inl err \<Rightarrow> matchByIP e ips (logf Warn ''fuzzy IP match failed'' w)
      | Inr matches \<Rightarrow>
          if length matches = 1 then (Some (matches ! 0), w)
          else matchByIP e ips w)"

text \<open>Step 3, entered only when \<open>existing\<close> is still nil.\<close>

definition matchByFQDN :: "env \<Rightarrow> Asset \<Rightarrow> world \<Rightarrow> Asset option \<times> world" where
  "matchByFQDN e incoming w =
     (case FQDN incoming of
        None \<Rightarrow> (None, w)
      | Some f \<Rightarrow>
          if f = [] then (None, w)
          else (case FindByFQDN e w f of
                  Inl err \<Rightarrow> (None, logf Warn ''fuzzy FQDN match failed'' w)
                | Inr matches \<Rightarrow>
                    if length matches = 1 then (Some (matches ! 0), w) else (None, w)))"

text \<open>
  Lines 72 to 101 of \<open>reconcileAsset\<close>: the value of \<open>existing\<close> when the mutation
  part starts, or the error returned when the exact lookup fails.
\<close>

definition resolveIdentity :: "env \<Rightarrow> Asset \<Rightarrow> world \<Rightarrow> error + (Asset option \<times> world)" where
  "resolveIdentity e incoming w =
     (case GetByExternalID e w (Source incoming) (ExternalID incoming) of
        Inl err \<Rightarrow> Inl (''looking up asset: '' @ err)
      | Inr existing0 \<Rightarrow>
          let (existing1, w1) =
                (if existing0 = None \<and> length (IPAddresses incoming) > 0
                 then matchByIP e (IPAddresses incoming) w
                 else (existing0, w));
              (existing2, w2) =
                (if existing1 = None then matchByFQDN e incoming w1 else (existing1, w1))
          in Inr (existing2, w2))"

subsection \<open>reconcileAsset, mutation\<close>

text \<open>The branch \<open>existing == nil\<close> (lines 105 to 125).\<close>

definition upsertNodeLogged :: "Reconciler \<Rightarrow> env \<Rightarrow> string \<Rightarrow> Asset \<Rightarrow> world \<Rightarrow> world" where
  "upsertNodeLogged r e msg asset w =
     (if neoStore r
      then (case UpsertNode e asset w of Inl err \<Rightarrow> logf Warn msg w | Inr w' \<Rightarrow> w')
      else w)"

definition reconcileNew :: "Reconciler \<Rightarrow> env \<Rightarrow> Asset \<Rightarrow> world \<Rightarrow> error option \<times> Asset \<times> world" where
  "reconcileNew r e incoming0 w =
     (let incoming = incoming0\<lparr>FirstSeen := now e, LastSeen := now e,
                               Status := AssetStatusActive, CreatedAt := now e,
                               UpdatedAt := now e\<rparr>
      in case Create e incoming w of
           Inl err \<Rightarrow> (Some (''creating new asset: '' @ err), incoming, w)
         | Inr w1 \<Rightarrow>
             let w2 = upsertNodeLogged r e ''failed to create neo4j node'' incoming w1;
                 w3 = publishEvent r e ChangeActionCreated incoming None w2
             in (None, incoming, w3))"

text \<open>The branch for an existing asset (lines 127 to 158).\<close>

definition reconcileExisting ::
    "Reconciler \<Rightarrow> env \<Rightarrow> Asset \<Rightarrow> Asset \<Rightarrow> world \<Rightarrow> error option \<times> Asset \<times> world" where
  "reconcileExisting r e existing0 incoming w =
     (let d = detectChanges existing0 incoming;
          existing1 = existing0\<lparr>LastSeen := now e, Status := AssetStatusActive\<rparr>
      in if length d > 0 then
           (let existing2 = existing1\<lparr>Name := Name incoming, FQDN := FQDN incoming,
                                      IPAddresses := IPAddresses incoming,
                                      Attributes := Attributes incoming,
                                      UpdatedAt := now e\<rparr>
            in case Update e existing2 w of
                 (Some err, existing3, w1) \<Rightarrow> (Some (''updating asset: '' @ err), incoming, w1)
               | (None, existing3, w1) \<Rightarrow>
                   let w2 = upsertNodeLogged r e ''failed to update neo4j node'' existing3 w1;
                       w3 = publishEvent r e ChangeActionUpdated existing3 (Some d) w2
                   in (None, incoming, w3))
         else
           (case Update e existing1 w of
              (Some err, existing3, w1) \<Rightarrow> (Some (''updating last_seen: '' @ err), incoming, w1)
            | (None, existing3, w1) \<Rightarrow> (None, incoming, w1)))"

text \<open>
  \<open>reconcileAsset\<close> returns its error, the incoming asset as the caller sees it
  afterwards (the new-asset branch stamps it in place) and the new world.
\<close>

definition reconcileAsset :: "Reconciler \<Rightarrow> env \<Rightarrow> Asset \<Rightarrow> world \<Rightarrow> error option \<times> Asset \<times> world" where
  "reconcileAsset r e incoming w =
     (case resolveIdentity e incoming w of
        Inl err \<Rightarrow> (Some err, incoming, w)
      | Inr (None, w1) \<Rightarrow> reconcileNew r e incoming w1
      | Inr (Some existing, w1) \<Rightarrow> reconcileExisting r e existing incoming w1)"

subsection \<open>reconcileRelationship and Reconcile\<close>

definition reconcileRelationship :: "Reconciler \<Rightarrow> env \<Rightarrow> Relationship \<Rightarrow> world \<Rightarrow> error option \<times> world" where
  "reconcileRelationship r e rel w =
     (if \<not> neoStore r then (None, w)
      else (case UpsertRelationship e rel w of Inl err \<Rightarrow> (Some err, w) | Inr w' \<Rightarrow> (None, w')))"

record CollectResult =
  Assets :: "Asset list"
  Relationships :: "Relationship list"

text \<open>
  The two loops of \<open>Reconcile\<close>. Step \<open>i\<close> of a run works in the environment
  \<open>envs i\<close>: the assets take the steps \<open>0, 1, ...\<close>, the relationships the steps
  after them.
\<close>

fun reconcileAssets :: "Reconciler \<Rightarrow> (nat \<Rightarrow> env) \<Rightarrow> nat \<Rightarrow> Asset list \<Rightarrow> world \<Rightarrow> Asset list \<times> world" where
  "reconcileAssets r envs i [] w = ([], w)"
| "reconcileAssets r envs i (incoming # rest) w =
     (case reconcileAsset r (envs i) incoming w of
        (err, incoming', w1) \<Rightarrow>
          let w2 = (case err of Some x \<Rightarrow> logf Error ''reconciling asset'' w1 | None \<Rightarrow> w1);
              (rest', w3) = reconcileAssets r envs (Suc i) rest w2
          in (incoming' # rest', w3))"

fun reconcileRelationships :: "Reconciler \<Rightarrow> (nat \<Rightarrow> env) \<Rightarrow> nat \<Rightarrow> Relationship list \<Rightarrow> world \<Rightarrow> world" where
  "reconcileRelationships r envs i [] w = w"
| "reconcileRelationships r envs i (rel # rest) w =
     (case reconcileRelationship r (envs i) rel w of
        (err, w1) \<Rightarrow>
          let w2 = (case err of Some x \<Rightarrow> logf Error ''reconciling relationship'' w1 | None \<Rightarrow> w1)
          in reconcileRelationships r envs (Suc i) rest w2)"

definition Reconcile :: "Reconciler \<Rightarrow> (nat \<Rightarrow> env) \<Rightarrow> CollectResult \<Rightarrow> world \<Rightarrow> error option \<times> CollectResult \<times> world" where
  "Reconcile r envs result w =
     (let (assets', w1) = reconcileAssets r envs 0 (Assets result) w;
          w2 = reconcileRelationships r envs (length (Assets result)) (Relationships result) w1
      in (None, result\<lparr>Assets := assets'\<rparr>, w2))"

section \<open>The notifier (internal/notifier)\<close>

record AlertRule =
  RuleID :: string
  RuleName :: string
  Actions :: "string list"
  Sources :: "string list"
  Channels :: "string list"

record Notifier =
  rules :: "AlertRule list"
  webhookURL :: string

definition AddRule :: "AlertRule \<Rightarrow> Notifier \<Rightarrow> Notifier" where
  "AddRule rule n = n\<lparr>rules := rules n @ [rule]\<rparr>"

text \<open>The two search loops of \<open>matches\<close>: set the flag and break at the first equal element.\<close>

fun scanFor :: "string \<Rightarrow> string list \<Rightarrow> bool" where
  "scanFor x [] = False"
| "scanFor x (a # rest) = (if a = x then True else scanFor x rest)"

definition matches :: "AlertRule \<Rightarrow> ChangeEvent \<Rightarrow> bool" where
  "matches rule event =
     (let actionMatch = scanFor (Action event) (Actions rule) in
      if \<not> actionMatch then False
      else if length (Sources rule) > 0 then
        (let sourceMatch = scanFor (EventSource event) (Sources rule) in
         if \<not> sourceMatch then False else True)
      else True)"

text \<open>
  What the notifier does is recorded as a list of effects: log lines and HTTP requests
  sent. The outcome of a request is an input.
\<close>

datatype http_outcome = RequestError | TransportError | HttpStatus nat

datatype effect = Log level string | HttpPost string ChangeEvent

definition sendWebhook :: "(string \<Rightarrow> ChangeEvent \<Rightarrow> http_outcome) \<Rightarrow> Notifier \<Rightarrow> ChangeEvent \<Rightarrow> effect list" where
  "sendWebhook http n event =
     (if webhookURL n = [] then []
      else (case http (webhookURL n) event of
              RequestError \<Rightarrow> [Log Error ''creating webhook request'']
            | TransportError \<Rightarrow> [HttpPost (webhookURL n) event, Log Error ''sending webhook'']
            | HttpStatus code \<Rightarrow>
                if code \<ge> 300
                then [HttpPost (webhookURL n) event, Log Warn ''webhook returned non-success'']
                else [HttpPost (webhookURL n) event]))"

fun dispatchChannels :: "(string \<Rightarrow> ChangeEvent \<Rightarrow> http_outcome) \<Rightarrow> Notifier \<Rightarrow> ChangeEvent \<Rightarrow> string list \<Rightarrow> effect list" where
  "dispatchChannels http n event [] = []"
| "dispatchChannels http n event (ch # rest) =
     (if ch = ''webhook'' then sendWebhook http n event
      else if ch = ''email'' then [Log Info ''email notification not yet implemented'']
      else if ch = ''telegram'' then [Log Info ''telegram notification not yet implemented'']
      else [])
     @ dispatchChannels http n event rest"

definition notify :: "(string \<Rightarrow> ChangeEvent \<Rightarrow> http_outcome) \<Rightarrow> Notifier \<Rightarrow> ChangeEvent \<Rightarrow> AlertRule \<Rightarrow> effect list" where
  "notify http n event rule =
     Log Info ''alert rule matched'' # dispatchChannels http n event (Channels rule)"

fun evaluateRules :: "(string \<Rightarrow> ChangeEvent \<Rightarrow> http_outcome) \<Rightarrow> Notifier \<Rightarrow> ChangeEvent \<Rightarrow> AlertRule list \<Rightarrow> effect list" where
  "evaluateRules http n event [] = []"
| "evaluateRules http n event (rule # rest) =
     (if matches rule event then notify http n event rule else [])
     @ evaluateRules http n event rest"

definition Evaluate :: "(string \<Rightarrow> ChangeEvent \<Rightarrow> http_outcome) \<Rightarrow> Notifier \<Rightarrow> ChangeEvent \<Rightarrow> effect list" where
  "Evaluate http n event = evaluateRules http n event (rules n)"

section \<open>The collector registry (internal/collector)\<close>

record CollectorConfig =
  ConfigName :: string
  ConfigType :: string
  Enabled :: bool
  Interval :: int
  Settings :: "(string \<times> string) list"

record CollectorStatus =
  StatusName :: string
  LastRun :: time
  LastSuccess :: time
  LastError :: string
  Running :: bool
  AssetCount :: int

text \<open>
  A collector is known to the registry by the name it reports; what its \<open>Collect\<close>
  returns is an input of each run.
\<close>

datatype Collector = Collector (CollectorName: string)

text \<open>
  The registry's \<open>statuses\<close> map holds pointers (\<open>*model.CollectorStatus\<close>), so the
  status objects live in a heap of cells and the map holds their addresses. The Go maps
  are association lists with distinct keys; the order in which Go iterates over a map is
  unspecified, and the list order stands for one such order.
\<close>

type_synonym addr = nat

record heap =
  cell :: "addr \<Rightarrow> CollectorStatus option"
  next_addr :: addr

definition alloc :: "CollectorStatus \<Rightarrow> heap \<Rightarrow> addr \<times> heap" where
  "alloc v h = (next_addr h, h\<lparr>cell := (cell h)(next_addr h := Some v), next_addr := Suc (next_addr h)\<rparr>)"

text \<open>A write through a pointer, such as \<open>s.LastError = msg\<close> for a pointer \<open>s\<close>.\<close>

definition store_through :: "addr \<Rightarrow> (CollectorStatus \<Rightarrow> CollectorStatus) \<Rightarrow> heap \<Rightarrow> heap" where
  "store_through p f h = h\<lparr>cell := (cell h)(p := map_option f (cell h p))\<rparr>"

record Registry =
  collectors :: "(string \<times> Collector) list"
  configs :: "(string \<times> CollectorConfig) list"
  statuses :: "(string \<times> addr) list"

definition NewRegistry :: Registry where
  "NewRegistry = \<lparr>collectors = [], configs = [], statuses = []\<rparr>"

text \<open>The state of the collector worker process: registry, heap of status objects, stores and log.\<close>

record process =
  registry :: Registry
  statusHeap :: heap
  stores :: world

definition Register :: "Collector \<Rightarrow> CollectorConfig \<Rightarrow> process \<Rightarrow> process" where
  "Register c cfg ps =
     (let name = CollectorName c;
          (p, h) = alloc \<lparr>StatusName = name, LastRun = 0, LastSuccess = 0, LastError = [],
                          Running = False, AssetCount = 0\<rparr> (statusHeap ps);
          r = registry ps
      in ps\<lparr>registry := r\<lparr>collectors := AList.update name c (collectors r),
                            configs := AList.update name cfg (configs r),
                            statuses := AList.update name p (statuses r)\<rparr>,
            statusHeap := h,
            stores := logf Info ''registered collector'' (stores ps)\<rparr>)"

definition Get :: "Registry \<Rightarrow> string \<Rightarrow> error + (Collector \<times> CollectorConfig)" where
  "Get r name =
     (case map_of (collectors r) name of
        None \<Rightarrow> Inl ''collector not found''
      | Some c \<Rightarrow>
          Inr (c, (case map_of (configs r) name of
                     Some cfg \<Rightarrow> cfg
                   | None \<Rightarrow> \<lparr>ConfigName = [], ConfigType = [], Enabled = False, Interval = 0,
                               Settings = []\<rparr>)))"

text \<open>\<open>Registry.List\<close>: a new slice, filled with the pointers found in the map.\<close>

fun appendStatuses :: "addr list \<Rightarrow> (string \<times> addr) list \<Rightarrow> addr list" where
  "appendStatuses result [] = result"
| "appendStatuses result ((name, s) # rest) = appendStatuses (result @ [s]) rest"

definition RegistryList :: "Registry \<Rightarrow> addr list" where
  "RegistryList r = appendStatuses [] (statuses r)"

fun appendNames :: "string list \<Rightarrow> (string \<times> Collector) list \<Rightarrow> string list" where
  "appendNames names [] = names"
| "appendNames names ((name, c) # rest) = appendNames (names @ [name]) rest"

definition Names :: "Registry \<Rightarrow> string list" where
  "Names r = appendNames [] (collectors r)"

text \<open>The status the registry holds for a collector: the content of the cell its map entry points to.\<close>

definition liveStatus :: "process \<Rightarrow> string \<Rightarrow> CollectorStatus option" where
  "liveStatus ps name =
     (case map_of (statuses (registry ps)) name of
        None \<Rightarrow> None
      | Some p \<Rightarrow> cell (statusHeap ps) p)"

section \<open>The scheduler (internal/scheduler)\<close>







text \<open>The period of the worker's ticker, in nanoseconds: five minutes unless the configured interval is positive.\<close>

definition tickerInterval :: "CollectorConfig \<Rightarrow> int" where
  "tickerInterval cfg = (if Interval cfg \<le> 0 then 5 * 60 * 1000000000 else Interval cfg)"



text \<open>The reconciler the collector worker's \<open>main\<close> builds: \<open>reconciler.New(pgStore, neo, nil, logger)\<close>.\<close>

definition workerReconciler :: "bool \<Rightarrow> Reconciler" where
  "workerReconciler neo = New neo False"

section \<open>Graph traversal (internal/store/neo4j, read side)\<close>

text \<open>
  \<open>traverseGraph\<close> builds a variable-length pattern \<open>[r*1..depth]\<close> from the asset,
  along outgoing or incoming edges, and hands it to Neo4j. The pattern is the record
  below; what Neo4j answers to a pattern is an input.
\<close>

record Traversal =
  StartID :: uuid
  MaxHops :: int
  Outgoing :: bool

type_synonym graph_db = "Traversal \<Rightarrow> error + (Asset list \<times> Relationship list)"

definition traverseGraph :: "graph_db \<Rightarrow> uuid \<Rightarrow> int \<Rightarrow> string \<Rightarrow> error + (Asset list \<times> Relationship list)" where
  "traverseGraph neo assetID depth0 direction =
     (let depth = (if depth0 \<le> 0 then 3 else depth0);
          pattern = \<lparr>StartID = assetID, MaxHops = depth, Outgoing = (direction = ''outgoing'')\<rparr>
      in case neo pattern of
           Inl err \<Rightarrow> Inl (''traversing graph: '' @ err)
         | Inr res \<Rightarrow> Inr res)"

definition GetDependencyGraph :: "graph_db \<Rightarrow> uuid \<Rightarrow> int \<Rightarrow> error + (Asset list \<times> Relationship list)" where
  "GetDependencyGraph neo assetID depth = traverseGraph neo assetID depth ''outgoing''"

definition GetImpactGraph :: "graph_db \<Rightarrow> uuid \<Rightarrow> int \<Rightarrow> error + (Asset list \<times> Relationship list)" where
  "GetImpactGraph neo assetID depth = traverseGraph neo assetID depth ''incoming''"

section \<open>Listing assets (internal/store/postgres, List)\<close>





section \<open>HTTP handlers (internal/api)\<close>

datatype response =
    ErrorResponse nat string
  | AssetsResponse nat "Asset list" int
  | GraphResponse nat "Asset list" "Relationship list"





text \<open>
  The graph handlers. \<open>parsed\<close> is the result of \<open>parseUUID\<close> (\<open>None\<close> when the path
  parameter is not a UUID), \<open>graphStore\<close> the server's \<open>neoStore\<close> (\<open>None\<close> when nil),
  \<open>depth0\<close> the integer \<open>strconv.Atoi\<close> returned for the query parameter \<open>depth\<close>.
\<close>

definition handleGetDependencyGraph :: "graph_db option \<Rightarrow> uuid option \<Rightarrow> int \<Rightarrow> response" where
  "handleGetDependencyGraph graphStore parsed depth0 =
     (case parsed of
        None \<Rightarrow> ErrorResponse 400 ''invalid UUID''
      | Some assetID \<Rightarrow>
          (case graphStore of
             None \<Rightarrow> ErrorResponse 503 ''graph store not available''
           | Some neo \<Rightarrow>
               let depth = (if depth0 \<le> 0 then 3 else depth0) in
               (case GetDependencyGraph neo assetID depth of
                  Inl err \<Rightarrow> ErrorResponse 500 ''failed to get dependency graph''
                | Inr (found, rels) \<Rightarrow> GraphResponse 200 found rels)))"

definition handleGetImpactGraph :: "graph_db option \<Rightarrow> uuid option \<Rightarrow> int \<Rightarrow> response" where
  "handleGetImpactGraph graphStore parsed depth0 =
     (case parsed of
        None \<Rightarrow> ErrorResponse 400 ''invalid UUID''
      | Some assetID \<Rightarrow>
          (case graphStore of
             None \<Rightarrow> ErrorResponse 503 ''graph store not available''
           | Some neo \<Rightarrow>
               let depth = (if depth0 \<le> 0 then 3 else depth0) in
               (case GetImpactGraph neo assetID depth of
                  Inl err \<Rightarrow> ErrorResponse 500 ''failed to get impact graph''
                | Inr (found, rels) \<Rightarrow> GraphResponse 200 found rels)))"

section \<open>The identity cascade in the words of the specification\<close>

text \<open>
  Stated from the specification, not from the code: a lookup that fails yields no
  candidates; an exact match wins; otherwise the first IP address, in order, whose lookup
  yields exactly one candidate decides; otherwise a non-empty FQDN whose lookup yields
  exactly one candidate; otherwise there is no match.
\<close>

definition candidates :: "error + 'a list \<Rightarrow> 'a list" where
  "candidates res = (case res of Inl err \<Rightarrow> [] | Inr found \<Rightarrow> found)"

definition identityCascade ::
    "Asset option \<Rightarrow> (string \<Rightarrow> Asset list) \<Rightarrow> (string \<Rightarrow> Asset list) \<Rightarrow> Asset \<Rightarrow> Asset option" where
  "identityCascade exact byIP byFQDN incoming =
     (case exact of
        Some a \<Rightarrow> Some a
      | None \<Rightarrow>
          (case find (\<lambda>ip. length (byIP ip) = 1) (IPAddresses incoming) of
             Some ip \<Rightarrow> Some (hd (byIP ip))
           | None \<Rightarrow>
               (case FQDN incoming of
                  None \<Rightarrow> None
                | Some f \<Rightarrow>
                    if f \<noteq> [] \<and> length (byFQDN f) = 1 then Some (hd (byFQDN f)) else None)))"

section \<open>Canonical string form of a JSON text\<close>

text \<open>
  Stated from the specification's words (\<open>canonical-string forms of the JSON blob\<close>),
  not from the code, which has no such function. Whatever else a canonical form fixes
  (key order, number format), it does not depend on the white space between the tokens of
  the text: \<open>compactJSON\<close> removes the space, tab, line feed and carriage return
  characters outside string literals and keeps everything else, so two texts with the
  same compact form are the same JSON value and have the same canonical form.
  \<open>compactFrom True\<close> reads inside a string literal, where a backslash protects
  the next character.
\<close>

fun compactFrom :: "bool \<Rightarrow> string \<Rightarrow> string" where
  "compactFrom inString [] = []"
| "compactFrom False (c # cs) =
     (if c = CHR '' '' \<or> c = CHR 0x09 \<or> c = CHR 0x0A \<or> c = CHR 0x0D then compactFrom False cs
      else if c = CHR 0x22 then c # compactFrom True cs
      else c # compactFrom False cs)"
| "compactFrom True [c] = [c]"
| "compactFrom True (c # d # cs) =
     (if c = CHR 0x5C then c # d # compactFrom True cs
      else if c = CHR 0x22 then c # compactFrom False (d # cs)
      else c # compactFrom True (d # cs))"

definition compactJSON :: "string \<Rightarrow> string" where
  "compactJSON text = compactFrom False text"

section \<open>Observing what a reconciliation writes\<close>

text \<open>Two worlds that differ in the log only.\<close>

definition sameButLogs :: "world \<Rightarrow> world \<Rightarrow> bool" where
  "sameButLogs w w' \<longleftrightarrow>
     w' = w\<lparr>logs := logs w'\<rparr> \<and> take (length (logs w)) (logs w') = logs w"

text \<open>
  The change events appended to the history and the messages accepted by the bus between
  two worlds.
\<close>

definition newEvents :: "world \<Rightarrow> world \<Rightarrow> ChangeEvent list" where
  "newEvents w w' = drop (length (change_events w)) (change_events w')"

definition newMessages :: "world \<Rightarrow> world \<Rightarrow> (string \<times> ChangeEvent) list" where
  "newMessages w w' = drop (length (published w)) (published w')"

text \<open>\<open>silent\<close>: nothing was appended; \<open>emits P\<close>: whatever was appended satisfies \<open>P\<close>.\<close>

definition silent :: "world \<Rightarrow> world \<Rightarrow> bool" where
  "silent w w' \<longleftrightarrow> change_events w' = change_events w \<and> published w' = published w"

definition emits :: "(ChangeEvent \<Rightarrow> bool) \<Rightarrow> world \<Rightarrow> world \<Rightarrow> bool" where
  "emits P w w' \<longleftrightarrow>
     (\<exists>s p. change_events w' = change_events w @ s \<and> published w' = published w @ p
        \<and> list_all P s \<and> list_all (\<lambda>m. P (snd m)) p)"

text \<open>
  The invariant of the data model on change events: an \<open>asset.updated\<close> event carries
  a JSON object with at least one member, an \<open>asset.created\<close> event carries \<open>null\<close>.
\<close>

definition diffInvariant :: "ChangeEvent \<Rightarrow> bool" where
  "diffInvariant ev \<longleftrightarrow>
     (Action ev = ChangeActionUpdated \<longrightarrow> (case Diff ev of JNull \<Rightarrow> False | JObject d \<Rightarrow> d \<noteq> []))
     \<and> (Action ev = ChangeActionCreated \<longrightarrow> Diff ev = JNull)"

text \<open>
  A property of events is admitted by a reconciler when its publisher is nil, or when the
  property holds of every event the two calls of \<open>publishEvent\<close> can build.
\<close>

definition admits :: "Reconciler \<Rightarrow> (ChangeEvent \<Rightarrow> bool) \<Rightarrow> bool" where
  "admits r P \<longleftrightarrow>
     (publisher r \<longrightarrow>
        (\<forall>i t a s. P (NewChangeEvent i t a ChangeActionCreated s JNull))
        \<and> (\<forall>i t a s d. d \<noteq> [] \<longrightarrow> P (NewChangeEvent i t a ChangeActionUpdated s (JObject d))))"

section \<open>Example data\<close>

text \<open>
  An environment in which no call fails; the first sighting of the specification's
  scenario 1; an inventory of three virtual machines, two of which share an address; a
  scan result that names the shared address first.
\<close>

definition quietEnv :: "time \<Rightarrow> uuid \<Rightarrow> env" where
  "quietEnv t u = \<lparr>now = t, update_now = t + 1, event_now = t + 2, event_uuid = u,
                   fails = (\<lambda>c. False), rows_read = (\<lambda>c. None)\<rparr>"

definition emptyWorld :: world where
  "emptyWorld = \<lparr>assets = [], change_events = [], nodes = [], edges = [], published = [],
                 logs = []\<rparr>"

definition nmapHost :: Asset where
  "nmapHost = \<lparr>ID = 1, ExternalID = ''10.0.0.5'', Source = ''nmap'', AssetType = ''host'',
               Name = [], FQDN = None, IPAddresses = [''10.0.0.5''], Attributes = ''{}'',
               FirstSeen = 0, LastSeen = 0, Status = [], CreatedAt = 0, UpdatedAt = 0\<rparr>"

definition vm :: "uuid \<Rightarrow> string \<Rightarrow> string list \<Rightarrow> Asset" where
  "vm i ext ips = \<lparr>ID = i, ExternalID = ext, Source = ''vmware'', AssetType = ''vm'',
               Name = ext, FQDN = None, IPAddresses = ips, Attributes = ''{}'',
               FirstSeen = 10, LastSeen = 10, Status = ''active'', CreatedAt = 10, UpdatedAt = 10\<rparr>"

definition inventory :: world where
  "inventory = emptyWorld\<lparr>assets := [vm 11 ''vm-a'' [''10.0.0.5''],
                                      vm 12 ''vm-b'' [''10.0.0.7'', ''10.0.0.5''],
                                      vm 13 ''vm-c'' [''10.0.0.6'']]\<rparr>"

definition scanned :: Asset where
  "scanned = nmapHost\<lparr>ID := 2, IPAddresses := [''10.0.0.5'', ''10.0.0.6'']\<rparr>"

definition snapshot :: CollectResult where
  "snapshot = \<lparr>Assets = [nmapHost], Relationships = []\<rparr>"

definition renamed :: CollectResult where
  "renamed = \<lparr>Assets = [nmapHost\<lparr>Name := ''web01''\<rparr>], Relationships = []\<rparr>"

definition runWorld :: "Reconciler \<Rightarrow> time \<Rightarrow> uuid \<Rightarrow> CollectResult \<Rightarrow> world \<Rightarrow> world" where
  "runWorld r t u result w = snd (snd (Reconcile r (\<lambda>i. quietEnv t u) result w))"

definition firstRun :: world where
  "firstRun = runWorld (New True True) 100 7 snapshot emptyWorld"

text \<open>
  A graph database that answers only a traversal of depth 11, and one that answers only
  depth 3; a registry holding one collector; a run whose \<open>Collect\<close> fails and one that
  delivers the snapshot; one change event and a notifier with three rules; a list query
  asking for 500 rows.
\<close>

definition onlyEleven :: graph_db where
  "onlyEleven t = (if MaxHops t = 11 then Inr ([vm 13 ''vm-c'' [''10.0.0.6'']], [])
                   else Inl ''not asked with depth 11'')"

definition onlyThree :: graph_db where
  "onlyThree t = (if MaxHops t = 3 then Inr ([vm 11 ''vm-a'' [''10.0.0.5'']], [])
                  else Inl ''not asked with depth 3'')"

definition emptyHeap :: heap where
  "emptyHeap = \<lparr>cell = (\<lambda>p. None), next_addr = 0\<rparr>"

definition nmapConfig :: CollectorConfig where
  "nmapConfig = \<lparr>ConfigName = ''scan'', ConfigType = ''nmap'', Enabled = True, Interval = 0,
                  Settings = []\<rparr>"

definition registered :: process where
  "registered = Register (Collector ''nmap'') nmapConfig
                  \<lparr>registry = NewRegistry, statusHeap = emptyHeap, stores = emptyWorld\<rparr>"

definition tamper :: "CollectorStatus \<Rightarrow> CollectorStatus" where
  "tamper s = s\<lparr>LastError := ''tampered''\<rparr>"





definition createdByNmap :: ChangeEvent where
  "createdByNmap = NewChangeEvent 7 102 1 ChangeActionCreated ''nmap'' JNull"

definition alertRule :: "string list \<Rightarrow> string list \<Rightarrow> string list \<Rightarrow> AlertRule" where
  "alertRule acts srcs chans = \<lparr>RuleID = ''r'', RuleName = ''r'', Actions = acts, Sources = srcs,
                           Channels = chans\<rparr>"

definition alwaysOK :: "string \<Rightarrow> ChangeEvent \<Rightarrow> http_outcome" where
  "alwaysOK url ev = HttpStatus 200"

definition twoRules :: Notifier where
  "twoRules = \<lparr>rules = [alertRule [] [] [''webhook''],
                        alertRule [''asset.created''] [] [''email'', ''webhook''],
                        alertRule [''asset.created''] [''vmware''] [''telegram'']],
               webhookURL = ''http://hook''\<rparr>"


text \<open>
  The virtual machine \<open>vm-a\<close> as the store returns it, with the attribute blob
  \<open>[1, 2]\<close>, and as a collector reports it, with the blob \<open>[1,2]\<close>.
\<close>

definition storedPair :: Asset where
  "storedPair = (vm 11 ''vm-a'' [''10.0.0.5''])\<lparr>Attributes := ''[1, 2]''\<rparr>"

definition reportedPair :: Asset where
  "reportedPair = (vm 11 ''vm-a'' [''10.0.0.5''])\<lparr>Attributes := ''[1,2]''\<rparr>"


section \<open>Facts about the model\<close>

subsection \<open>Change detection\<close>

lemma detectChanges_keys_distinct: "distinct (map fst (detectChanges existing incoming))"
  by (simp add: detectChanges_def Let_def)

lemma detectChanges_keys: "set (map fst (detectChanges existing incoming))
    \<subseteq> {''name'', ''fqdn'', ''attributes''}"
  by (auto simp: detectChanges_def Let_def)

subsection \<open>Identity resolution\<close>

lemma sameButLogs_iff: "sameButLogs w w' \<longleftrightarrow> (\<exists>l. w' = w\<lparr>logs := logs w @ l\<rparr>)"
proof
  assume a: "sameButLogs w w'"
  then have "logs w' = logs w @ drop (length (logs w)) (logs w')"
    by (metis append_take_drop_id sameButLogs_def)
  moreover have "w' = w\<lparr>logs := logs w'\<rparr>" using a by (simp add: sameButLogs_def)
  ultimately have "w' = w\<lparr>logs := logs w @ drop (length (logs w)) (logs w')\<rparr>" by simp
  then show "\<exists>l. w' = w\<lparr>logs := logs w @ l\<rparr>" ..
next
  assume "\<exists>l. w' = w\<lparr>logs := logs w @ l\<rparr>"
  then show "sameButLogs w w'" by (auto simp: sameButLogs_def)
qed

lemma sameButLogs_refl [simp]: "sameButLogs w w"
  unfolding sameButLogs_iff by (rule exI[of _ "[]"]) simp

lemma sameButLogs_logf [simp]: "sameButLogs w (logf lvl msg w)"
  unfolding sameButLogs_iff logf_def by (rule exI[of _ "[(lvl, msg)]"]) simp

lemma sameButLogs_trans: "sameButLogs a b \<Longrightarrow> sameButLogs b c \<Longrightarrow> sameButLogs a c"
  unfolding sameButLogs_iff by (auto intro: exI[of _ "_ @ _"])

lemma FindByIP_logs: "sameButLogs w w' \<Longrightarrow> FindByIP e w' ip = FindByIP e w ip"
  unfolding sameButLogs_iff FindByIP_def by auto

lemma FindByFQDN_logs: "sameButLogs w w' \<Longrightarrow> FindByFQDN e w' f = FindByFQDN e w f"
  unfolding sameButLogs_iff FindByFQDN_def by auto

lemma candidates_simps [simp]: "candidates (Inl err) = []" "candidates (Inr found) = found"
  by (simp_all add: candidates_def)

lemma single_nth_hd: "length xs = 1 \<Longrightarrow> xs ! 0 = hd xs"
  by (cases xs) simp_all

lemma matchByIP_find:
  "\<exists>w'. matchByIP e ips w =
     ((case find (\<lambda>ip. length (candidates (FindByIP e w ip)) = 1) ips of
         Some ip \<Rightarrow> Some (hd (candidates (FindByIP e w ip)))
       | None \<Rightarrow> None), w') \<and> sameButLogs w w'"
proof (induction ips arbitrary: w)
  case Nil
  show ?case by simp
next
  case (Cons ip ips)
  show ?case
  proof (cases "FindByIP e w ip")
    case (Inl err)
    let ?w1 = "logf Warn ''fuzzy IP match failed'' w"
    have same: "sameButLogs w ?w1" by simp
    have eq: "\<And>x. FindByIP e ?w1 x = FindByIP e w x"
      by (rule FindByIP_logs[OF same])
    from Cons.IH[of ?w1] obtain w' where
      m: "matchByIP e ips ?w1 =
           ((case find (\<lambda>ip. length (candidates (FindByIP e ?w1 ip)) = 1) ips of
               Some ip \<Rightarrow> Some (hd (candidates (FindByIP e ?w1 ip)))
             | None \<Rightarrow> None), w')" and s: "sameButLogs ?w1 w'"
      by blast
    have "sameButLogs w w'" using same s by (rule sameButLogs_trans)
    then show ?thesis
      using m[unfolded eq] by (simp add: Inl)
  next
    case (Inr found)
    show ?thesis
    proof (cases "length found = 1")
      case True
      then show ?thesis by (simp add: Inr single_nth_hd)
    next
      case False
      from Cons.IH[of w] obtain w' where
        "matchByIP e ips w =
           ((case find (\<lambda>ip. length (candidates (FindByIP e w ip)) = 1) ips of
               Some ip \<Rightarrow> Some (hd (candidates (FindByIP e w ip)))
             | None \<Rightarrow> None), w')" and "sameButLogs w w'"
        by blast
      then show ?thesis using False by (simp add: Inr)
    qed
  qed
qed

lemma matchByFQDN_spec:
  "\<exists>w'. matchByFQDN e incoming w =
     ((case FQDN incoming of
         None \<Rightarrow> None
       | Some f \<Rightarrow>
           if f \<noteq> [] \<and> length (candidates (FindByFQDN e w f)) = 1
           then Some (hd (candidates (FindByFQDN e w f))) else None), w')
     \<and> sameButLogs w w'"
  by (cases "FQDN incoming")
     (auto simp: matchByFQDN_def single_nth_hd split: sum.splits)

lemma resolveIdentity_cascade:
  assumes "GetByExternalID e w (Source incoming) (ExternalID incoming) = Inr exact"
  shows "\<exists>w'. resolveIdentity e incoming w =
            Inr (identityCascade exact (\<lambda>ip. candidates (FindByIP e w ip))
                   (\<lambda>f. candidates (FindByFQDN e w f)) incoming, w')
          \<and> sameButLogs w w'"
proof (cases exact)
  case (Some a)
  then show ?thesis using assms
    by (auto simp: resolveIdentity_def identityCascade_def intro!: exI[of _ w])
next
  case None
  obtain w1 where
    ip: "matchByIP e (IPAddresses incoming) w =
          ((case find (\<lambda>ip. length (candidates (FindByIP e w ip)) = 1) (IPAddresses incoming) of
              Some ip \<Rightarrow> Some (hd (candidates (FindByIP e w ip)))
            | None \<Rightarrow> None), w1)" and s1: "sameButLogs w w1"
    using matchByIP_find by blast
  show ?thesis
  proof (cases "find (\<lambda>ip. length (candidates (FindByIP e w ip)) = 1) (IPAddresses incoming)")
    case (Some ip)
    then have "IPAddresses incoming \<noteq> []" by auto
    then show ?thesis using assms None ip s1 Some
      by (auto simp: resolveIdentity_def identityCascade_def)
  next
    case noip: None
    have eq: "\<And>x. FindByFQDN e w1 x = FindByFQDN e w x"
      by (rule FindByFQDN_logs[OF s1])
    obtain w2 where
      fq: "matchByFQDN e incoming w1 =
            ((case FQDN incoming of
                None \<Rightarrow> None
              | Some f \<Rightarrow>
                  if f \<noteq> [] \<and> length (candidates (FindByFQDN e w1 f)) = 1
                  then Some (hd (candidates (FindByFQDN e w1 f))) else None), w2)"
      and s2: "sameButLogs w1 w2"
      using matchByFQDN_spec by blast
    obtain w0 where
      fq0: "matchByFQDN e incoming w =
            ((case FQDN incoming of
                None \<Rightarrow> None
              | Some f \<Rightarrow>
                  if f \<noteq> [] \<and> length (candidates (FindByFQDN e w f)) = 1
                  then Some (hd (candidates (FindByFQDN e w f))) else None), w0)"
      and s0: "sameButLogs w w0"
      using matchByFQDN_spec by blast
    have s12: "sameButLogs w w2" using s1 s2 by (rule sameButLogs_trans)
    show ?thesis
    proof (cases "IPAddresses incoming = []")
      case True
      then show ?thesis using assms None fq0 s0 noip
        by (simp add: resolveIdentity_def identityCascade_def)
    next
      case False
      then show ?thesis using assms None ip fq[unfolded eq] s12 noip
        by (simp add: resolveIdentity_def identityCascade_def)
    qed
  qed
qed

subsection \<open>What the reconciler appends to the history and the bus\<close>

lemma silent_refl [simp]: "silent w w"
  by (simp add: silent_def)

lemma silent_trans: "silent a b \<Longrightarrow> silent b c \<Longrightarrow> silent a c"
  by (simp add: silent_def)

lemma silent_emits: "silent w w' \<Longrightarrow> emits P w w'"
  by (simp add: silent_def emits_def)

lemma emits_trans: "emits P a b \<Longrightarrow> emits P b c \<Longrightarrow> emits P a c"
  unfolding emits_def
  by (elim exE conjE) (rule_tac x = "s @ sa" in exI, rule_tac x = "p @ pa" in exI, simp)

lemma silent_logf [simp]: "silent w (logf lvl msg w)"
  by (simp add: silent_def logf_def)

lemma silent_logs: "sameButLogs w w' \<Longrightarrow> silent w w'"
  by (auto simp: sameButLogs_iff silent_def)

lemma silent_Create: "Create e a w = Inr w' \<Longrightarrow> silent w w'"
  by (auto simp: Create_def silent_def split: if_splits)

lemma silent_Update: "Update e a w = (err, a', w') \<Longrightarrow> silent w w'"
  by (auto simp: Update_def Let_def silent_def split: if_splits)

lemma silent_upsertNodeLogged [simp]: "silent w (upsertNodeLogged r e msg a w)"
  by (auto simp: upsertNodeLogged_def UpsertNode_def silent_def logf_def)

lemma silent_reconcileRelationship: "reconcileRelationship r e rel w = (err, w') \<Longrightarrow> silent w w'"
  by (auto simp: reconcileRelationship_def UpsertRelationship_def silent_def
           split: if_splits)

lemma publishEvent_nil_publisher: "\<not> publisher r \<Longrightarrow> publishEvent r e action a d w = w"
  by (simp add: publishEvent_def)

lemma admits_diffInvariant: "admits r diffInvariant"
  by (simp add: admits_def diffInvariant_def NewChangeEvent_def ChangeActionCreated_def
                ChangeActionUpdated_def)

lemma admits_nil_publisher: "\<not> publisher r \<Longrightarrow> admits r (\<lambda>ev. False)"
  by (simp add: admits_def)

lemma emits_nothing: "emits (\<lambda>ev. False) w w' \<Longrightarrow> silent w w'"
  unfolding emits_def silent_def
  by (elim exE conjE, case_tac s; case_tac p) simp_all

lemma publishEvent_emits:
  assumes "publisher r \<Longrightarrow>
           P (NewChangeEvent (event_uuid e) (event_now e) (ID a) action (Source a) (Marshal d))"
  shows "emits P w (publishEvent r e action a d w)"
proof (cases "publisher r")
  case False
  then show ?thesis by (simp add: publishEvent_nil_publisher silent_emits)
next
  case True
  let ?ev = "NewChangeEvent (event_uuid e) (event_now e) (ID a) action (Source a) (Marshal d)"
  have P: "P ?ev" using assms True by simp
  have stored: "emits P w (case CreateChangeEvent e ?ev w of
                    Inl err \<Rightarrow> logf Warn ''failed to store change event'' w
                  | Inr w' \<Rightarrow> w')" (is "emits P w ?w1")
  proof (cases "CreateChangeEvent e ?ev w")
    case (Inl err)
    then show ?thesis by (simp add: silent_emits)
  next
    case (Inr w')
    then have "change_events w' = change_events w @ [?ev]" "published w' = published w"
      by (auto simp: CreateChangeEvent_def split: if_splits)
    then show ?thesis using P Inr
      unfolding emits_def by (intro exI[of _ "[?ev]"] exI[of _ "[]"]) simp
  qed
  have sent: "emits P ?w1 (publishEvent r e action a d w)"
  proof (cases "fails e (BusPublish (''assets.'' @ action))")
    case True
    then show ?thesis using \<open>publisher r\<close>
      by (simp add: publishEvent_def Let_def silent_emits)
  next
    case False
    then have "publishEvent r e action a d w = ?w1\<lparr>published := published ?w1 @ [(''assets.'' @ action, ?ev)]\<rparr>"
      using \<open>publisher r\<close> by (simp add: publishEvent_def Let_def)
    then show ?thesis using P
      unfolding emits_def
      by (intro exI[of _ "[]"] exI[of _ "[(''assets.'' @ action, ?ev)]"]) simp
  qed
  from stored sent show ?thesis by (rule emits_trans)
qed

lemma reconcileNew_emits:
  assumes "reconcileNew r e incoming w = (err, incoming', w')" and adm: "admits r P"
  shows "emits P w w'"
proof -
  let ?a = "incoming\<lparr>FirstSeen := now e, LastSeen := now e, Status := AssetStatusActive,
                      CreatedAt := now e, UpdatedAt := now e\<rparr>"
  show ?thesis
  proof (cases "Create e ?a w")
    case (Inl x)
    then show ?thesis using assms by (auto simp: reconcileNew_def Let_def silent_emits)
  next
    case (Inr w1)
    let ?w2 = "upsertNodeLogged r e ''failed to create neo4j node'' ?a w1"
    have w': "w' = publishEvent r e ChangeActionCreated ?a None ?w2"
      using assms Inr by (auto simp: reconcileNew_def Let_def)
    have "silent w ?w2"
      using silent_Create[OF Inr] silent_upsertNodeLogged by (rule silent_trans)
    then have "emits P w ?w2" by (rule silent_emits)
    moreover have "emits P ?w2 w'"
      unfolding w' using adm by (intro publishEvent_emits) (simp add: admits_def Marshal_def)
    ultimately show ?thesis by (rule emits_trans)
  qed
qed

lemma reconcileExisting_unchanged:
  assumes "reconcileExisting r e existing incoming w = (err, incoming', w')"
    and "detectChanges existing incoming = []"
  shows "silent w w'"
  using assms
  by (auto simp: reconcileExisting_def Let_def dest: silent_Update
           split: prod.splits option.splits)

lemma reconcileExisting_emits:
  assumes "reconcileExisting r e existing incoming w = (err, incoming', w')" and adm: "admits r P"
  shows "emits P w w'"
proof (cases "detectChanges existing incoming = []")
  case True
  then show ?thesis using assms(1) by (intro silent_emits reconcileExisting_unchanged)
next
  case False
  let ?d = "detectChanges existing incoming"
  let ?e2 = "existing\<lparr>LastSeen := now e, Status := AssetStatusActive,
                 Name := Name incoming, FQDN := FQDN incoming,
                 IPAddresses := IPAddresses incoming, Attributes := Attributes incoming,
                 UpdatedAt := now e\<rparr>"
  obtain uerr e3 w1 where u: "Update e ?e2 w = (uerr, e3, w1)"
    by (cases "Update e ?e2 w") auto
  have s1: "silent w w1" using u by (rule silent_Update)
  show ?thesis
  proof (cases uerr)
    case (Some x)
    then have "w' = w1" using assms False u by (auto simp: reconcileExisting_def Let_def)
    then show ?thesis using s1 by (simp add: silent_emits)
  next
    case None
    let ?w2 = "upsertNodeLogged r e ''failed to update neo4j node'' e3 w1"
    have w': "w' = publishEvent r e ChangeActionUpdated e3 (Some ?d) ?w2"
      using assms False u None by (auto simp: reconcileExisting_def Let_def)
    have "silent w ?w2" using s1 silent_upsertNodeLogged by (rule silent_trans)
    then have "emits P w ?w2" by (rule silent_emits)
    moreover have "emits P ?w2 w'"
      unfolding w' using adm False
      by (intro publishEvent_emits) (simp add: admits_def Marshal_def)
    ultimately show ?thesis by (rule emits_trans)
  qed
qed

lemma resolveIdentity_logs:
  assumes "resolveIdentity e incoming w = Inr (x, w1)"
  shows "sameButLogs w w1"
proof -
  from assms obtain exact where
    g: "GetByExternalID e w (Source incoming) (ExternalID incoming) = Inr exact"
    by (auto simp: resolveIdentity_def split: sum.splits)
  from resolveIdentity_cascade[OF g] assms show ?thesis by auto
qed

lemma reconcileAsset_emits:
  assumes "reconcileAsset r e incoming w = (err, incoming', w')" and adm: "admits r P"
  shows "emits P w w'"
proof (cases "resolveIdentity e incoming w")
  case (Inl x)
  then show ?thesis using assms by (simp add: reconcileAsset_def silent_emits)
next
  case (Inr res)
  obtain x w1 where res: "res = (x, w1)" by (cases res)
  have "emits P w w1"
    using resolveIdentity_logs[OF Inr[unfolded res]] by (simp add: silent_logs silent_emits)
  moreover have "emits P w1 w'"
  proof (cases x)
    case None
    then show ?thesis using assms Inr res
      by (auto simp: reconcileAsset_def intro: reconcileNew_emits)
  next
    case (Some existing)
    then show ?thesis using assms Inr res
      by (auto simp: reconcileAsset_def intro: reconcileExisting_emits)
  qed
  ultimately show ?thesis by (rule emits_trans)
qed

lemma reconcileAssets_emits:
  assumes "reconcileAssets r envs i incs w = (incs', w')" and adm: "admits r P"
  shows "emits P w w'"
  using assms(1)
proof (induction incs arbitrary: i w incs')
  case Nil
  then show ?case by (simp add: silent_emits)
next
  case (Cons a rest)
  obtain err a' w1 where ra: "reconcileAsset r (envs i) a w = (err, a', w1)"
    by (cases "reconcileAsset r (envs i) a w") auto
  let ?w2 = "case err of Some x \<Rightarrow> logf Error ''reconciling asset'' w1 | None \<Rightarrow> w1"
  obtain rest' where rr: "reconcileAssets r envs (Suc i) rest ?w2 = (rest', w')"
    using Cons.prems ra by (auto simp: Let_def split: prod.splits)
  have "emits P w w1" using ra adm by (rule reconcileAsset_emits)
  moreover have "emits P w1 ?w2" by (cases err) (simp_all add: silent_emits)
  moreover have "emits P ?w2 w'" using rr by (rule Cons.IH)
  ultimately show ?case by (blast intro: emits_trans)
qed

lemma reconcileRelationships_silent:
  "silent w (reconcileRelationships r envs i rels w)"
proof (induction rels arbitrary: i w)
  case Nil
  show ?case by simp
next
  case (Cons rel rest)
  obtain err w1 where rr: "reconcileRelationship r (envs i) rel w = (err, w1)"
    by (cases "reconcileRelationship r (envs i) rel w") auto
  let ?w2 = "case err of Some x \<Rightarrow> logf Error ''reconciling relationship'' w1 | None \<Rightarrow> w1"
  have "silent w w1" using rr by (rule silent_reconcileRelationship)
  moreover have "silent w1 ?w2" by (cases err) simp_all
  moreover have "silent ?w2 (reconcileRelationships r envs (Suc i) rest ?w2)" by (rule Cons.IH)
  ultimately show ?case using rr by (auto simp: Let_def intro: silent_trans)
qed

lemma Reconcile_emits:
  assumes "Reconcile r envs result w = (err, result', w')" and adm: "admits r P"
  shows "emits P w w'"
proof -
  obtain as' w1 where ra: "reconcileAssets r envs 0 (Assets result) w = (as', w1)"
    by (cases "reconcileAssets r envs 0 (Assets result) w") auto
  have w': "w' = reconcileRelationships r envs (length (Assets result)) (Relationships result) w1"
    using assms(1) ra by (auto simp: Reconcile_def Let_def)
  have "emits P w w1" using ra adm by (rule reconcileAssets_emits)
  moreover have "emits P w1 w'" unfolding w'
    by (rule silent_emits) (rule reconcileRelationships_silent)
  ultimately show ?thesis by (rule emits_trans)
qed


lemma emits_new:
  assumes "emits P w w'"
  shows "list_all P (newEvents w w')" and "list_all (\<lambda>m. P (snd m)) (newMessages w w')"
  using assms by (auto simp: emits_def newEvents_def newMessages_def)

lemma silent_new: "silent w w' \<Longrightarrow> newEvents w w' = [] \<and> newMessages w w' = []"
  by (simp add: silent_def newEvents_def newMessages_def)

subsection \<open>Unfolding the model on concrete data\<close>

lemmas model_defs = quietEnv_def emptyWorld_def nmapHost_def vm_def inventory_def scanned_def
  snapshot_def runWorld_def Reconcile_def reconcileAsset_def resolveIdentity_def
  reconcileNew_def reconcileExisting_def GetByExternalID_def FindByIP_def FindByFQDN_def
  rowsDelivered_def
  matchByFQDN_def Create_def Update_def write_row_def CreateChangeEvent_def UpsertNode_def
  upsertNodeLogged_def publishEvent_def detectChanges_def Marshal_def
  NewChangeEvent_def valid_status_def AssetStatusActive_def AssetStatusStale_def
  AssetStatusRemoved_def ChangeActionCreated_def ChangeActionUpdated_def New_def logf_def
  Let_def

lemma firstRun_eq:
  "firstRun =
     \<lparr>assets = [nmapHost\<lparr>FirstSeen := 100, LastSeen := 100, Status := ''active'',
                         CreatedAt := 100, UpdatedAt := 100\<rparr>],
      change_events = [\<lparr>EventID = 7, AssetID = 1, Action = ''asset.created'',
                        EventSource = ''nmap'', Diff = JNull, Timestamp = 102\<rparr>],
      nodes = [(1, \<lparr>NodeName = [], NodeAssetType = ''host'', NodeSource = ''nmap'',
                    NodeStatus = ''active''\<rparr>)],
      edges = [],
      published = [(''assets.asset.created'',
                    \<lparr>EventID = 7, AssetID = 1, Action = ''asset.created'',
                     EventSource = ''nmap'', Diff = JNull, Timestamp = 102\<rparr>)],
      logs = []\<rparr>"
  by (simp add: firstRun_def model_defs)

subsection \<open>Notifier, registry and scheduler\<close>

lemma scanFor_set: "scanFor x xs \<longleftrightarrow> x \<in> set xs"
  by (induction xs) auto

lemma matches_iff:
  "matches rule event \<longleftrightarrow>
     Action event \<in> set (Actions rule)
     \<and> (Sources rule = [] \<or> EventSource event \<in> set (Sources rule))"
  by (auto simp: matches_def Let_def scanFor_set)

lemma evaluateRules_concat:
  "evaluateRules http n event rs =
     concat (map (\<lambda>rule. if matches rule event then notify http n event rule else []) rs)"
  by (induction rs) simp_all

lemma appendStatuses_map: "appendStatuses acc xs = acc @ map snd xs"
  by (induction acc xs rule: appendStatuses.induct) simp_all

lemma registered_eq:
  "registry registered = \<lparr>collectors = [(''nmap'', Collector ''nmap'')],
                          configs = [(''nmap'', nmapConfig)], statuses = [(''nmap'', 0)]\<rparr>"
  "cell (statusHeap registered) 0 = Some \<lparr>StatusName = ''nmap'', LastRun = 0, LastSuccess = 0,
                                        LastError = [], Running = False, AssetCount = 0\<rparr>"
  by (simp_all add: registered_def Register_def alloc_def emptyHeap_def NewRegistry_def Let_def)






section \<open>The claims\<close>

text \<open>
  Claim C1. Whenever the exact lookup by \<open>(source, external_id)\<close> answers, the
  asset \<open>reconcileAsset\<close> goes on with is the one the three-stage cascade of the
  specification names: the exact match if there is one; otherwise the single candidate of
  the first IP address, in the order of \<open>ip_addresses\<close>, whose lookup returns exactly
  one candidate (addresses with no, several or unobtainable candidates are passed over);
  otherwise the single candidate of the lookup by a non-empty FQDN; and when no stage
  matches the asset takes the new-asset branch. The lookups change nothing but the log.
\<close>

theorem identity_cascade:
  assumes "GetByExternalID e w (Source incoming) (ExternalID incoming) = Inr exact"
  shows "\<exists>w'. sameButLogs w w'
           \<and> resolveIdentity e incoming w =
               Inr (identityCascade exact (\<lambda>ip. candidates (FindByIP e w ip))
                      (\<lambda>f. candidates (FindByFQDN e w f)) incoming, w')
           \<and> reconcileAsset r e incoming w =
               (case identityCascade exact (\<lambda>ip. candidates (FindByIP e w ip))
                       (\<lambda>f. candidates (FindByFQDN e w f)) incoming of
                  None \<Rightarrow> reconcileNew r e incoming w'
                | Some existing \<Rightarrow> reconcileExisting r e existing incoming w')"
proof -
  from resolveIdentity_cascade[OF assms] obtain w' where
    res: "resolveIdentity e incoming w =
            Inr (identityCascade exact (\<lambda>ip. candidates (FindByIP e w ip))
                   (\<lambda>f. candidates (FindByFQDN e w f)) incoming, w')"
    and same: "sameButLogs w w'"
    by blast
  have "reconcileAsset r e incoming w =
          (case identityCascade exact (\<lambda>ip. candidates (FindByIP e w ip))
                  (\<lambda>f. candidates (FindByFQDN e w f)) incoming of
             None \<Rightarrow> reconcileNew r e incoming w'
           | Some existing \<Rightarrow> reconcileExisting r e existing incoming w')"
    by (simp add: reconcileAsset_def res split: option.splits)
  with res same show ?thesis by blast
qed

theorem identity_cascade_witness:
  "GetByExternalID (quietEnv 100 7) inventory (Source scanned) (ExternalID scanned) = Inr None
   \<and> candidates (FindByIP (quietEnv 100 7) inventory ''10.0.0.5'')
       = [vm 11 ''vm-a'' [''10.0.0.5''], vm 12 ''vm-b'' [''10.0.0.7'', ''10.0.0.5'']]
   \<and> (\<exists>w'. resolveIdentity (quietEnv 100 7) scanned inventory
               = Inr (Some (vm 13 ''vm-c'' [''10.0.0.6'']), w'))"
proof -
  have h: "GetByExternalID (quietEnv 100 7) inventory (Source scanned) (ExternalID scanned)
             = Inr None"
    by (simp add: model_defs)
  have c: "candidates (FindByIP (quietEnv 100 7) inventory ''10.0.0.5'')
       = [vm 11 ''vm-a'' [''10.0.0.5''], vm 12 ''vm-b'' [''10.0.0.7'', ''10.0.0.5'']]"
    by (simp add: model_defs)
  have "identityCascade None (\<lambda>ip. candidates (FindByIP (quietEnv 100 7) inventory ip))
          (\<lambda>f. candidates (FindByFQDN (quietEnv 100 7) inventory f)) scanned
        = Some (vm 13 ''vm-c'' [''10.0.0.6''])"
    by (simp add: identityCascade_def model_defs)
  with identity_cascade[OF h, of "New True True"] h c show ?thesis by auto
qed

text \<open>
  Claim C2, evaluated on scenarios 1 and 2 of the specification. The first run inserts the
  host with \<open>updated_at = 100\<close>. The second run of the same snapshot, at time 200,
  finds the stored asset, computes an empty diff and emits no change event; it sets
  \<open>last_seen\<close> to 200, and \<open>updated_at\<close> becomes 201, the clock reading taken
  inside \<open>Store.Update\<close>: the stored \<open>updated_at\<close> does not stay at 100.
\<close>

theorem resighting_bumps_updated_at:
  "map UpdatedAt (assets firstRun) = [100]
   \<and> map UpdatedAt (assets (runWorld (New True True) 200 8 snapshot firstRun)) = [201]
   \<and> map LastSeen (assets (runWorld (New True True) 200 8 snapshot firstRun)) = [200]
   \<and> newEvents firstRun (runWorld (New True True) 200 8 snapshot firstRun) = []
   \<and> detectChanges (hd (assets firstRun)) nmapHost = []"
  by (simp add: firstRun_eq newEvents_def model_defs)

text \<open>
  Claim C3. Every change event a run of \<open>Reconcile\<close> appends to the history or hands
  to the bus satisfies the invariant: with action \<open>asset.updated\<close> its diff is a JSON
  object with at least one member, with action \<open>asset.created\<close> its diff is
  \<open>null\<close>. The run only appends to the history and to the bus. A reconciliation that
  resolves to an existing asset and computes an empty diff appends no event and publishes
  nothing.
\<close>

theorem change_event_diffs:
  "(Reconcile r envs result w = (err, result', w') \<longrightarrow>
      change_events w' = change_events w @ newEvents w w'
      \<and> published w' = published w @ newMessages w w'
      \<and> list_all diffInvariant (newEvents w w')
      \<and> list_all (\<lambda>m. diffInvariant (snd m)) (newMessages w w'))
   \<and> (resolveIdentity e incoming v = Inr (Some existing, v1)
       \<and> detectChanges existing incoming = []
       \<and> reconcileAsset r e incoming v = (err1, incoming1, v') \<longrightarrow>
         newEvents v v' = [] \<and> newMessages v v' = [])"
proof (intro conjI impI)
  assume a: "Reconcile r envs result w = (err, result', w')"
  have em: "emits diffInvariant w w'"
    using a admits_diffInvariant by (rule Reconcile_emits)
  show "list_all diffInvariant (newEvents w w')"
    and "list_all (\<lambda>m. diffInvariant (snd m)) (newMessages w w')"
    using emits_new[OF em] by simp_all
  show "change_events w' = change_events w @ newEvents w w'"
    and "published w' = published w @ newMessages w w'"
    using em by (auto simp: emits_def newEvents_def newMessages_def)
next
  assume b: "resolveIdentity e incoming v = Inr (Some existing, v1)
       \<and> detectChanges existing incoming = []
       \<and> reconcileAsset r e incoming v = (err1, incoming1, v')"
  then have b1: "resolveIdentity e incoming v = Inr (Some existing, v1)"
    and b2: "detectChanges existing incoming = []"
    and b3: "reconcileAsset r e incoming v = (err1, incoming1, v')"
    by simp_all
  from b1 b3 have "reconcileExisting r e existing incoming v1 = (err1, incoming1, v')"
    by (auto simp: reconcileAsset_def)
  then have "silent v1 v'" using b2 by (rule reconcileExisting_unchanged)
  moreover have "silent v v1" using b1 by (intro silent_logs resolveIdentity_logs)
  ultimately have "silent v v'" by (blast intro: silent_trans)
  then show "newEvents v v' = []" and "newMessages v v' = []"
    using silent_new by simp_all
qed

theorem change_event_diffs_witness:
  "newEvents firstRun (runWorld (New True True) 200 8 renamed firstRun)
     = [\<lparr>EventID = 8, AssetID = 1, Action = ''asset.updated'', EventSource = ''nmap'',
         Diff = JObject [(''name'', \<lparr>old_value = [], new_value = ''web01''\<rparr>)],
         Timestamp = 202\<rparr>]
   \<and> list_all diffInvariant (newEvents firstRun (runWorld (New True True) 200 8 renamed firstRun))
   \<and> resolveIdentity (quietEnv 200 8) nmapHost firstRun = Inr (Some (hd (assets firstRun)), firstRun)
   \<and> detectChanges (hd (assets firstRun)) nmapHost = []
   \<and> newEvents firstRun (snd (snd (reconcileAsset (New True True) (quietEnv 200 8) nmapHost firstRun))) = []
   \<and> newMessages firstRun (snd (snd (reconcileAsset (New True True) (quietEnv 200 8) nmapHost firstRun))) = []"
proof -
  let ?R = "Reconcile (New True True) (\<lambda>i. quietEnv 200 8) renamed firstRun"
  let ?A = "reconcileAsset (New True True) (quietEnv 200 8) nmapHost firstRun"
  note inst = change_event_diffs[where r = "New True True" and envs = "\<lambda>i. quietEnv 200 8"
                and result = renamed and w = firstRun and err = "fst ?R"
                and result' = "fst (snd ?R)" and w' = "snd (snd ?R)"
                and e = "quietEnv 200 8" and incoming = nmapHost and v = firstRun
                and existing = "hd (assets firstRun)" and ?v1.0 = firstRun
                and ?err1.0 = "fst ?A" and ?incoming1.0 = "fst (snd ?A)" and v' = "snd (snd ?A)"]
  have "?R = (fst ?R, fst (snd ?R), snd (snd ?R))" by simp
  with inst
  have inv: "list_all diffInvariant (newEvents firstRun (runWorld (New True True) 200 8 renamed firstRun))"
    by (simp add: runWorld_def)
  have ev: "newEvents firstRun (runWorld (New True True) 200 8 renamed firstRun)
     = [\<lparr>EventID = 8, AssetID = 1, Action = ''asset.updated'', EventSource = ''nmap'',
         Diff = JObject [(''name'', \<lparr>old_value = [], new_value = ''web01''\<rparr>)],
         Timestamp = 202\<rparr>]"
    by (simp add: firstRun_eq newEvents_def renamed_def model_defs)
  have res: "resolveIdentity (quietEnv 200 8) nmapHost firstRun
               = Inr (Some (hd (assets firstRun)), firstRun)"
    by (simp add: firstRun_eq model_defs)
  have d: "detectChanges (hd (assets firstRun)) nmapHost = []"
    by (simp add: firstRun_eq model_defs)
  have "?A = (fst ?A, fst (snd ?A), snd (snd ?A))" by simp
  with inst res d
  have none: "newEvents firstRun (snd (snd ?A)) = [] \<and> newMessages firstRun (snd (snd ?A)) = []"
    by blast
  from inv ev res d none show ?thesis by simp
qed

text \<open>
  Claim C4, as amended. The diff of an existing and an incoming asset has an entry under
  \<open>name\<close> exactly when the names differ, under \<open>fqdn\<close> exactly when the FQDNs differ
  after a nil FQDN is read as the empty string, under \<open>attributes\<close> exactly when the
  two attribute blobs differ as byte strings (no canonical form is computed), and no entry
  under any other key; each entry is the pair of the old and the new value, with the empty
  string standing for a nil FQDN. The IP address lists of the two assets have no influence
  on the diff.
\<close>

theorem detectChanges_exact:
  "map_of (detectChanges existing incoming) k =
     (if k = ''name'' then
        (if Name existing = Name incoming then None
         else Some \<lparr>old_value = Name existing, new_value = Name incoming\<rparr>)
      else if k = ''fqdn'' then
        (if (case FQDN existing of None \<Rightarrow> [] | Some s \<Rightarrow> s)
            = (case FQDN incoming of None \<Rightarrow> [] | Some s \<Rightarrow> s) then None
         else Some \<lparr>old_value = (case FQDN existing of None \<Rightarrow> [] | Some s \<Rightarrow> s),
                     new_value = (case FQDN incoming of None \<Rightarrow> [] | Some s \<Rightarrow> s)\<rparr>)
      else if k = ''attributes'' then
        (if Attributes existing = Attributes incoming then None
         else Some \<lparr>old_value = Attributes existing, new_value = Attributes incoming\<rparr>)
      else None)
   \<and> detectChanges (existing\<lparr>IPAddresses := ips\<rparr>) (incoming\<lparr>IPAddresses := ips'\<rparr>)
       = detectChanges existing incoming"
  by (simp add: detectChanges_def Let_def)

theorem detectChanges_exact_witness:
  "map_of (detectChanges (vm 11 ''vm-a'' [''10.0.0.5'']) (vm 11 ''web01'' [''10.0.0.9''])) ''name''
     = Some \<lparr>old_value = ''vm-a'', new_value = ''web01''\<rparr>
   \<and> map_of (detectChanges ((vm 11 ''vm-a'' [])\<lparr>FQDN := Some ''a.example.com''\<rparr>)
                           ((vm 11 ''vm-a'' [])\<lparr>FQDN := Some ''b.example.com''\<rparr>)) ''fqdn''
       = Some \<lparr>old_value = ''a.example.com'', new_value = ''b.example.com''\<rparr>
   \<and> map_of (detectChanges (vm 11 ''vm-a'' [])
                           ((vm 11 ''vm-a'' [])\<lparr>FQDN := Some ''a.example.com''\<rparr>)) ''fqdn''
       = Some \<lparr>old_value = [], new_value = ''a.example.com''\<rparr>
   \<and> map_of (detectChanges (vm 11 ''vm-a'' []) ((vm 11 ''vm-a'' [])\<lparr>FQDN := Some []\<rparr>)) ''fqdn''
       = None
   \<and> map_of (detectChanges storedPair reportedPair) ''attributes''
       = Some \<lparr>old_value = ''[1, 2]'', new_value = ''[1,2]''\<rparr>
   \<and> map_of (detectChanges storedPair reportedPair) ''ip_addresses'' = None
   \<and> detectChanges (vm 11 ''vm-a'' [''10.0.0.5'']) (vm 11 ''vm-a'' [''10.0.0.9'']) = []"
proof -
  let ?a = "(vm 11 ''vm-a'' [])\<lparr>FQDN := Some ''a.example.com''\<rparr>"
  let ?b = "(vm 11 ''vm-a'' [])\<lparr>FQDN := Some ''b.example.com''\<rparr>"
  have n: "map_of (detectChanges (vm 11 ''vm-a'' [''10.0.0.5'']) (vm 11 ''web01'' [''10.0.0.9'']))
             ''name'' = Some \<lparr>old_value = ''vm-a'', new_value = ''web01''\<rparr>"
    using detectChanges_exact[of "vm 11 ''vm-a'' [''10.0.0.5'']" "vm 11 ''web01'' [''10.0.0.9'']"
            "''name''"]
    by (simp add: vm_def)
  have f1: "map_of (detectChanges ?a ?b) ''fqdn''
              = Some \<lparr>old_value = ''a.example.com'', new_value = ''b.example.com''\<rparr>"
    using detectChanges_exact[of ?a ?b "''fqdn''"] by (simp add: vm_def)
  have f2: "map_of (detectChanges (vm 11 ''vm-a'' []) ?a) ''fqdn''
              = Some \<lparr>old_value = [], new_value = ''a.example.com''\<rparr>"
    using detectChanges_exact[of "vm 11 ''vm-a'' []" ?a "''fqdn''"] by (simp add: vm_def)
  have f3: "map_of (detectChanges (vm 11 ''vm-a'' []) ((vm 11 ''vm-a'' [])\<lparr>FQDN := Some []\<rparr>))
              ''fqdn'' = None"
    using detectChanges_exact[of "vm 11 ''vm-a'' []" "(vm 11 ''vm-a'' [])\<lparr>FQDN := Some []\<rparr>"
            "''fqdn''"]
    by (simp add: vm_def)
  have at: "map_of (detectChanges storedPair reportedPair) ''attributes''
              = Some \<lparr>old_value = ''[1, 2]'', new_value = ''[1,2]''\<rparr>"
    using detectChanges_exact[of storedPair reportedPair "''attributes''"]
    by (simp add: storedPair_def reportedPair_def vm_def)
  have ip: "map_of (detectChanges storedPair reportedPair) ''ip_addresses'' = None"
    using detectChanges_exact[of storedPair reportedPair "''ip_addresses''"] by simp
  have "detectChanges (vm 11 ''vm-a'' [''10.0.0.5'']) (vm 11 ''vm-a'' [''10.0.0.9''])
          = detectChanges (vm 11 ''vm-a'' []) (vm 11 ''vm-a'' [])"
    using detectChanges_exact[of "vm 11 ''vm-a'' []" "vm 11 ''vm-a'' []" "''name''"
            "[''10.0.0.5'']" "[''10.0.0.9'']"]
    by (simp add: vm_def)
  moreover have "detectChanges (vm 11 ''vm-a'' []) (vm 11 ''vm-a'' []) = []"
    by (simp add: detectChanges_def)
  ultimately have same: "detectChanges (vm 11 ''vm-a'' [''10.0.0.5''])
                           (vm 11 ''vm-a'' [''10.0.0.9'']) = []"
    by simp
  from n f1 f2 f3 at ip same show ?thesis by simp
qed

text \<open>
  The claim as first stated fails on the blobs \<open>[1, 2]\<close> and \<open>[1,2]\<close>: they are the
  same JSON value and have the same compact form, hence the same canonical form, yet the
  diff has an \<open>attributes\<close> entry for them.
\<close>

theorem attributes_bytes_counterexample:
  "compactJSON (Attributes storedPair) = compactJSON (Attributes reportedPair)
   \<and> map_of (detectChanges storedPair reportedPair) ''attributes''
       = Some \<lparr>old_value = ''[1, 2]'', new_value = ''[1,2]''\<rparr>"
  by (simp add: compactJSON_def storedPair_def reportedPair_def vm_def detectChanges_def)

text \<open>
  Claim C5, as amended. A requested depth \<open>\<le> 0\<close> is replaced by 3, in the handlers
  and again in \<open>traverseGraph\<close>; every positive depth is used as given, without an
  upper bound: the dependency and the impact handler answer with whatever the traversal
  of that depth yields (status 200), or with status 500 when the traversal itself fails.
\<close>

theorem traversal_depth:
  "handleGetDependencyGraph (Some neo) (Some assetID) d =
     (case neo \<lparr>StartID = assetID, MaxHops = (if d \<le> 0 then 3 else d), Outgoing = True\<rparr> of
        Inl err \<Rightarrow> ErrorResponse 500 ''failed to get dependency graph''
      | Inr (found, rels) \<Rightarrow> GraphResponse 200 found rels)
   \<and> handleGetImpactGraph (Some neo) (Some assetID) d =
     (case neo \<lparr>StartID = assetID, MaxHops = (if d \<le> 0 then 3 else d), Outgoing = False\<rparr> of
        Inl err \<Rightarrow> ErrorResponse 500 ''failed to get impact graph''
      | Inr (found, rels) \<Rightarrow> GraphResponse 200 found rels)
   \<and> traverseGraph neo assetID d direction =
     (case neo \<lparr>StartID = assetID, MaxHops = (if d \<le> 0 then 3 else d),
                Outgoing = (direction = ''outgoing'')\<rparr> of
        Inl err \<Rightarrow> Inl (''traversing graph: '' @ err)
      | Inr res \<Rightarrow> Inr res)"
  by (simp add: handleGetDependencyGraph_def handleGetImpactGraph_def GetDependencyGraph_def
                GetImpactGraph_def traverseGraph_def Let_def split: sum.splits)

theorem traversal_depth_witness:
  "handleGetDependencyGraph (Some onlyThree) (Some 11) (- 2)
     = GraphResponse 200 [vm 11 ''vm-a'' [''10.0.0.5'']] []
   \<and> handleGetImpactGraph (Some onlyThree) (Some 11) 0
     = GraphResponse 200 [vm 11 ''vm-a'' [''10.0.0.5'']] []
   \<and> handleGetImpactGraph (Some onlyThree) (Some 11) 4
     = ErrorResponse 500 ''failed to get impact graph''"
  using traversal_depth[of onlyThree 11 "- 2"] traversal_depth[of onlyThree 11 0]
        traversal_depth[of onlyThree 11 4]
  by (simp add: onlyThree_def)

text \<open>
  The claim as first stated fails at depth 11: the handler runs the traversal with
  \<open>MaxHops = 11\<close> and returns its result with status 200, and so does
  \<open>traverseGraph\<close>; nothing is rejected.
\<close>

theorem deep_traversal_counterexample:
  "handleGetDependencyGraph (Some onlyEleven) (Some 13) 11
     = GraphResponse 200 [vm 13 ''vm-c'' [''10.0.0.6'']] []
   \<and> traverseGraph onlyEleven 13 11 ''incoming'' = Inr ([vm 13 ''vm-c'' [''10.0.0.6'']], [])"
  by (simp add: handleGetDependencyGraph_def GetDependencyGraph_def traverseGraph_def
                onlyEleven_def Let_def)






text \<open>
  Claim C8, as amended. \<open>Registry.List\<close> returns a new slice holding the pointers of
  the registry's \<open>statuses\<close> map, one per registered collector. The status objects
  are shared, not copied: a write through a returned pointer changes the status the
  registry holds for that collector.
\<close>

theorem RegistryList_shares:
  "RegistryList r = map snd (statuses r)
   \<and> (map_of (statuses (registry ps)) name = Some p \<longrightarrow>
        p \<in> set (RegistryList (registry ps))
        \<and> liveStatus (ps\<lparr>statusHeap := store_through p f (statusHeap ps)\<rparr>) name
            = map_option f (liveStatus ps name))"
proof -
  have l: "RegistryList r = map snd (statuses r)" for r
    by (simp add: RegistryList_def appendStatuses_map)
  have "p \<in> set (RegistryList (registry ps))" if "map_of (statuses (registry ps)) name = Some p"
    using map_of_SomeD[OF that] by (force simp: l)
  moreover have "liveStatus (ps\<lparr>statusHeap := store_through p f (statusHeap ps)\<rparr>) name
            = map_option f (liveStatus ps name)"
    if "map_of (statuses (registry ps)) name = Some p"
    using that by (simp add: liveStatus_def store_through_def)
  ultimately show ?thesis using l by blast
qed

theorem RegistryList_shares_witness:
  "RegistryList (registry registered) = [0]
   \<and> map_of (statuses (registry registered)) ''nmap'' = Some 0
   \<and> liveStatus (registered\<lparr>statusHeap := store_through 0 tamper (statusHeap registered)\<rparr>) ''nmap''
       = map_option tamper (liveStatus registered ''nmap'')"
proof -
  have h: "map_of (statuses (registry registered)) ''nmap'' = Some 0"
    by (simp add: registered_eq)
  from RegistryList_shares[of "registry registered" registered "''nmap''" 0 tamper] h
  show ?thesis by (simp add: registered_eq)
qed

text \<open>
  The claim as first stated fails with one registered collector: writing
  \<open>LastError\<close> through the pointer \<open>List\<close> returned changes the \<open>last_error\<close>
  the registry holds from the empty string to the written value.
\<close>

theorem RegistryList_alias_counterexample:
  "map_option LastError (liveStatus registered ''nmap'') = Some []
   \<and> hd (RegistryList (registry registered)) = 0
   \<and> map_option LastError
        (liveStatus (registered\<lparr>statusHeap :=
            store_through (hd (RegistryList (registry registered))) tamper
              (statusHeap registered)\<rparr>) ''nmap'') = Some ''tampered''"
  by (simp add: registered_eq liveStatus_def RegistryList_def store_through_def tamper_def)

text \<open>
  Claim C9. \<open>Evaluate\<close> goes through the rules in order and, for each rule, logs the
  match and dispatches to the rule's channels exactly when the event's action is among the
  rule's actions and the rule's sources are empty or contain the event's source. A rule
  without actions matches no event; a rule without sources matches on the action alone.
\<close>

theorem Evaluate_dispatch:
  "Evaluate http n event =
     concat (map (\<lambda>rule.
                    if Action event \<in> set (Actions rule)
                       \<and> (Sources rule = [] \<or> EventSource event \<in> set (Sources rule))
                    then Log Info ''alert rule matched''
                           # dispatchChannels http n event (Channels rule)
                    else [])
                 (rules n))
   \<and> (matches rule event \<longleftrightarrow>
        Action event \<in> set (Actions rule)
        \<and> (Sources rule = [] \<or> EventSource event \<in> set (Sources rule)))
   \<and> (Actions rule = [] \<longrightarrow> \<not> matches rule event)
   \<and> (Sources rule = [] \<longrightarrow> (matches rule event \<longleftrightarrow> Action event \<in> set (Actions rule)))"
proof -
  have "Evaluate http n event =
          concat (map (\<lambda>rule. if matches rule event then notify http n event rule else [])
                      (rules n))"
    by (simp add: Evaluate_def evaluateRules_concat)
  then show ?thesis unfolding notify_def by (simp add: matches_iff)
qed

theorem Evaluate_dispatch_witness:
  "Evaluate alwaysOK twoRules createdByNmap
     = [Log Info ''alert rule matched'', Log Info ''email notification not yet implemented'',
        HttpPost ''http://hook'' createdByNmap]
   \<and> \<not> matches (alertRule [] [] [''webhook'']) createdByNmap
   \<and> matches (alertRule [''asset.created''] [] [''email'', ''webhook'']) createdByNmap"
  using Evaluate_dispatch[of alwaysOK twoRules createdByNmap "alertRule [] [] [''webhook'']"]
        Evaluate_dispatch[of alwaysOK twoRules createdByNmap
                             "alertRule [''asset.created''] [] [''email'', ''webhook'']"]
  by (simp add: twoRules_def alertRule_def createdByNmap_def NewChangeEvent_def
                ChangeActionCreated_def sendWebhook_def alwaysOK_def)

text \<open>
  Claim C10. With a nil publisher \<open>publishEvent\<close> returns at once, so a reconciled
  asset, created or updated, appends nothing to the change history and publishes
  nothing. The reconciler the collector worker builds has a nil publisher, so a whole run
  of the worker's \<open>Reconcile\<close> leaves the change history and the bus as they were.
\<close>

theorem nil_publisher_no_history:
  "(\<not> publisher r \<longrightarrow> publishEvent r e action asset d w = w)
   \<and> (\<not> publisher r \<and> reconcileAsset r e incoming w = (err, incoming', w') \<longrightarrow>
        change_events w' = change_events w \<and> published w' = published w)
   \<and> \<not> publisher (workerReconciler neo)
   \<and> (Reconcile (workerReconciler neo) envs result v = (err2, result2, v') \<longrightarrow>
        change_events v' = change_events v \<and> published v' = published v)"
proof (intro conjI impI)
  assume "\<not> publisher r"
  then show "publishEvent r e action asset d w = w" by (rule publishEvent_nil_publisher)
next
  assume a: "\<not> publisher r \<and> reconcileAsset r e incoming w = (err, incoming', w')"
  then have "emits (\<lambda>ev. False) w w'"
    by (intro reconcileAsset_emits[of r e incoming w err incoming'] admits_nil_publisher) simp_all
  then have "silent w w'" by (rule emits_nothing)
  then show "change_events w' = change_events w" and "published w' = published w"
    by (simp_all add: silent_def)
next
  show np: "\<not> publisher (workerReconciler neo)"
    by (simp add: workerReconciler_def New_def)
  assume "Reconcile (workerReconciler neo) envs result v = (err2, result2, v')"
  then have "emits (\<lambda>ev. False) v v'"
    using admits_nil_publisher[OF np] by (rule Reconcile_emits)
  then have "silent v v'" by (rule emits_nothing)
  then show "change_events v' = change_events v" and "published v' = published v"
    by (simp_all add: silent_def)
qed

theorem nil_publisher_no_history_witness:
  "\<not> publisher (workerReconciler True)
   \<and> publishEvent (workerReconciler True) (quietEnv 100 7) ChangeActionCreated nmapHost None
         emptyWorld = emptyWorld
   \<and> change_events (runWorld (workerReconciler True) 100 7 snapshot emptyWorld) = []
   \<and> published (runWorld (workerReconciler True) 100 7 snapshot emptyWorld) = []
   \<and> map ID (assets (runWorld (workerReconciler True) 100 7 snapshot emptyWorld)) = [1]"
proof -
  let ?R = "Reconcile (workerReconciler True) (\<lambda>i. quietEnv 100 7) snapshot emptyWorld"
  note inst = nil_publisher_no_history[where r = "workerReconciler True"
                and e = "quietEnv 100 7" and action = ChangeActionCreated and asset = nmapHost
                and d = None and w = emptyWorld and neo = True
                and envs = "\<lambda>i. quietEnv 100 7" and result = snapshot and v = emptyWorld
                and ?err2.0 = "fst ?R" and ?result2.0 = "fst (snd ?R)" and v' = "snd (snd ?R)"]
  have np: "\<not> publisher (workerReconciler True)"
    using inst by blast
  have pe: "publishEvent (workerReconciler True) (quietEnv 100 7) ChangeActionCreated nmapHost
              None emptyWorld = emptyWorld"
    using inst np by blast
  have "?R = (fst ?R, fst (snd ?R), snd (snd ?R))" by simp
  with inst
  have "change_events (snd (snd ?R)) = change_events emptyWorld
        \<and> published (snd (snd ?R)) = published emptyWorld"
    by blast
  moreover have "map ID (assets (runWorld (workerReconciler True) 100 7 snapshot emptyWorld)) = [1]"
    by (simp add: workerReconciler_def model_defs)
  ultimately show ?thesis using np pe by (simp add: runWorld_def emptyWorld_def)
qed

end
